theory Spec2Isabelle
  imports
    Main
    "HOL-Library.Multiset"
    "HOL-Library.Char_ord"
    "HOL-Library.List_Lexorder"
    "HOL-Library.Product_Lexorder"
begin

section \<open>Device registry and ping coordinator (app.py)\<close>

text \<open>
  A shallow embedding of \<^verbatim>\<open>app.py\<close>: the storage functions \<^verbatim>\<open>load_devices\<close> and
  \<^verbatim>\<open>save_devices\<close>, the prober \<^verbatim>\<open>ping_host\<close>, the coordinator \<^verbatim>\<open>bulk_status\<close> and
  the two mutating routes \<^verbatim>\<open>add_device\<close> and \<^verbatim>\<open>delete_device\<close>.

  A Python \<^verbatim>\<open>str\<close> is a HOL \<^typ>\<open>string\<close>; a character stands for the code point of
  the same number, so the strings of the model are the Python strings over the code
  points 0 to 255. Python compares strings by code point, lexicographically, and
  tuples lexicographically: these are the orders of \<^verbatim>\<open>Char_ord\<close>, \<^verbatim>\<open>List_Lexorder\<close>
  and \<^verbatim>\<open>Product_Lexorder\<close>.
\<close>

subsection \<open>String methods\<close>

text \<open>
  \<^verbatim>\<open>str.lower()\<close>: on the code points 0 to 255 the letters with a lowercase form are
  A to Z and the Latin-1 capitals 0xC0 to 0xDE without the multiplication sign 0xD7;
  each is mapped 32 code points up.
\<close>

definition lower_char :: "char \<Rightarrow> char" where
  "lower_char c =
     (let n = (of_char c :: nat)
      in if (65 \<le> n \<and> n \<le> 90) \<or> (192 \<le> n \<and> n \<le> 222 \<and> n \<noteq> 215)
         then char_of (n + 32) else c)"

definition lower :: "string \<Rightarrow> string" where
  "lower s = map lower_char s"

text \<open>
  \<^verbatim>\<open>str.isspace()\<close> on one character, which is what \<^verbatim>\<open>str.strip()\<close> without argument
  removes: tab, line feed, vertical tab, form feed, carriage return, the separators
  0x1C to 0x1F, space, next line 0x85 and no-break space 0xA0.
\<close>

definition isspace :: "char \<Rightarrow> bool" where
  "isspace c =
     (let n = (of_char c :: nat)
      in (9 \<le> n \<and> n \<le> 13) \<or> (28 \<le> n \<and> n \<le> 32) \<or> n = 133 \<or> n = 160)"

definition lstrip :: "string \<Rightarrow> string" where
  "lstrip s = dropWhile isspace s"

definition rstrip :: "string \<Rightarrow> string" where
  "rstrip s = rev (dropWhile isspace (rev s))"

definition strip :: "string \<Rightarrow> string" where
  "strip s = rstrip (lstrip s)"

subsection \<open>Data\<close>

text \<open>
  A device as the routes handle it after \<^verbatim>\<open>load_devices\<close>: a dict with the keys
  \<^verbatim>\<open>id\<close>, \<^verbatim>\<open>name\<close> and \<^verbatim>\<open>ip\<close>.
\<close>

record device =
  dev_id :: string
  dev_name :: string
  dev_ip :: string

text \<open>One entry of the list \<^verbatim>\<open>bulk_status\<close> returns.\<close>

record probe_result =
  res_id :: string
  res_name :: string
  res_ip :: string
  online :: bool

text \<open>The exceptions of the model: every one is a subclass of \<^verbatim>\<open>Exception\<close>.\<close>

datatype exn = FileNotFoundError | PermissionError | ValueError | TypeError | OSError

subsection \<open>The coordinator\<close>

text \<open>
  \<^verbatim>\<open>min(64, max(4, len(devices)))\<close>, the \<^verbatim>\<open>max_workers\<close> of the pool.
\<close>

definition max_workers :: "device list \<Rightarrow> nat" where
  "max_workers devices = min 64 (max 4 (length devices))"

text \<open>
  What \<^verbatim>\<open>bulk_status\<close> does to its surroundings, in program order: it creates the
  thread pool with its width, and submits one \<^verbatim>\<open>ping_host\<close> call per device.
\<close>

datatype effect = Pool_created nat | Submitted string

text \<open>
  The body of the \<^verbatim>\<open>for fut in as_completed(futures)\<close> loop for one future: the
  future of device \<open>d\<close> either returns the prober's boolean or raises, and a raise is
  caught and gives \<^verbatim>\<open>online = False\<close>.
\<close>

definition task_result :: "device \<Rightarrow> exn + bool \<Rightarrow> probe_result" where
  "task_result d fut =
     \<lparr>res_id = dev_id d, res_name = dev_name d, res_ip = dev_ip d,
      online = (case fut of Inl e \<Rightarrow> False | Inr b \<Rightarrow> b)\<rparr>"

text \<open>The sort key \<^verbatim>\<open>lambda x: (x["name"].lower(), x["ip"])\<close>.\<close>

definition report_key :: "probe_result \<Rightarrow> string \<times> string" where
  "report_key x = (lower (res_name x), res_ip x)"

text \<open>
  The list \<^verbatim>\<open>out\<close> when the loop ends. Task \<open>i\<close> is the future submitted for
  \<open>devices ! i\<close>; \<open>fut i\<close> is what that future holds when it is done; \<open>order\<close> is the
  sequence in which \<^verbatim>\<open>as_completed\<close> yields the tasks. \<^verbatim>\<open>as_completed\<close> yields every
  future once, so in a run of the program \<open>order\<close> is a permutation of the task
  numbers \<open>[0..<length devices]\<close>; which one is up to the scheduler.
\<close>

definition collected :: "(nat \<Rightarrow> exn + bool) \<Rightarrow> nat list \<Rightarrow> device list \<Rightarrow> probe_result list" where
  "collected fut order devices = map (\<lambda>i. task_result (devices ! i) (fut i)) order"

definition completion_order :: "device list \<Rightarrow> nat list \<Rightarrow> bool" where
  "completion_order devices order \<longleftrightarrow> mset order = mset [0..<length devices]"

text \<open>
  \<^verbatim>\<open>bulk_status\<close>: its effects and the list it returns. \<^verbatim>\<open>list.sort\<close> is a stable
  sort, and so is \<^const>\<open>sort_key\<close>.
\<close>

definition bulk_status ::
  "(nat \<Rightarrow> exn + bool) \<Rightarrow> nat list \<Rightarrow> device list \<Rightarrow> effect list \<times> probe_result list" where
  "bulk_status fut order devices =
     (Pool_created (max_workers devices) # map (\<lambda>d. Submitted (dev_ip d)) devices,
      sort_key report_key (collected fut order devices))"

text \<open>
  The thread pool of \<^verbatim>\<open>bulk_status\<close>, as a transition system over the tasks of one
  round. \<^verbatim>\<open>ThreadPoolExecutor(max_workers=W)\<close> keeps a queue of submitted work and
  starts worker threads, never more than \<open>W\<close>; a worker takes one task from the queue,
  runs it to its end and only then takes the next. The main thread submits the tasks
  in the order of the device list while the workers already run.
\<close>

record pool =
  submitted :: nat
  queue :: "nat list"
  threads :: nat
  running :: "nat list"
  finished :: "nat list"

definition pool_init :: pool where
  "pool_init = \<lparr>submitted = 0, queue = [], threads = 0, running = [], finished = []\<rparr>"

text \<open>
  The states a round on \<open>devices\<close> can reach. A submit may start a new worker thread
  while there are fewer than \<^const>\<open>max_workers\<close> (\<open>submit_spawn\<close>) or leave the task
  to the threads there are (\<open>submit_reuse\<close>); a worker without a task takes the head
  of the queue (\<open>take\<close>); a running probe ends (\<open>finish\<close>).
\<close>

inductive reachable :: "device list \<Rightarrow> pool \<Rightarrow> bool" for devices :: "device list" where
  init: "reachable devices pool_init"
| submit_spawn:
    "reachable devices s \<Longrightarrow> submitted s < length devices \<Longrightarrow> threads s < max_workers devices \<Longrightarrow>
     reachable devices
       (s\<lparr>submitted := Suc (submitted s), queue := queue s @ [submitted s],
          threads := Suc (threads s)\<rparr>)"
| submit_reuse:
    "reachable devices s \<Longrightarrow> submitted s < length devices \<Longrightarrow>
     reachable devices (s\<lparr>submitted := Suc (submitted s), queue := queue s @ [submitted s]\<rparr>)"
| take:
    "reachable devices s \<Longrightarrow> queue s = i # q \<Longrightarrow> length (running s) < threads s \<Longrightarrow>
     reachable devices (s\<lparr>queue := q, running := i # running s\<rparr>)"
| finish:
    "reachable devices s \<Longrightarrow> i \<in> set (running s) \<Longrightarrow>
     reachable devices (s\<lparr>running := remove1 i (running s), finished := finished s @ [i]\<rparr>)"

subsection \<open>The prober\<close>

text \<open>\<^verbatim>\<open>str\<close> of an integer: its decimal digits, with a minus sign when negative.\<close>

fun str_nat :: "nat \<Rightarrow> string" where
  "str_nat n = (if n < 10 then [char_of (48 + n)] else str_nat (n div 10) @ [char_of (48 + n mod 10)])"









subsection \<open>Storage\<close>

text \<open>
  One record of \<^verbatim>\<open>devices.json\<close>. \<^verbatim>\<open>load_devices\<close> expects that the key \<^verbatim>\<open>id\<close> can
  be missing, and adds it.
\<close>

record entry =
  ent_id :: "string option"
  ent_name :: string
  ent_ip :: string

text \<open>
  The state the storage functions work on: the content of \<^verbatim>\<open>devices.json\<close>
  (\<open>None\<close> when the file does not exist), the contents written by the calls of
  \<^verbatim>\<open>save_devices\<close> so far (the latest first), and the random source of
  \<^verbatim>\<open>uuid.uuid4()\<close> as the sequence of the strings it will return with the number of
  those drawn so far.
\<close>

record store =
  devices_file :: "entry list option"
  written :: "entry list list"
  uuid_source :: "nat \<Rightarrow> string"
  uuid_drawn :: nat

definition uuid4 :: "store \<Rightarrow> string \<times> store" where
  "uuid4 st = (uuid_source st (uuid_drawn st), st\<lparr>uuid_drawn := Suc (uuid_drawn st)\<rparr>)"

definition entry_of :: "device \<Rightarrow> entry" where
  "entry_of d = \<lparr>ent_id = Some (dev_id d), ent_name = dev_name d, ent_ip = dev_ip d\<rparr>"

definition save_devices :: "device list \<Rightarrow> store \<Rightarrow> store" where
  "save_devices devices st =
     st\<lparr>devices_file := Some (map entry_of devices), written := map entry_of devices # written st\<rparr>"

text \<open>
  The loop \<^verbatim>\<open>for d in data\<close> of \<^verbatim>\<open>load_devices\<close>: the records with their ids, and
  the flag \<^verbatim>\<open>updated\<close>.
\<close>

fun ensure_ids :: "entry list \<Rightarrow> store \<Rightarrow> (device list \<times> bool) \<times> store" where
  "ensure_ids [] st = (([], False), st)"
| "ensure_ids (d # data) st =
     (case ent_id d of
        Some i \<Rightarrow>
          (let ((devices, updated), st') = ensure_ids data st
           in ((\<lparr>dev_id = i, dev_name = ent_name d, dev_ip = ent_ip d\<rparr> # devices, updated), st'))
      | None \<Rightarrow>
          (let (u, st1) = uuid4 st;
               ((devices, updated), st') = ensure_ids data st1
           in ((\<lparr>dev_id = u, dev_name = ent_name d, dev_ip = ent_ip d\<rparr> # devices, True), st')))"

text \<open>
  \<^verbatim>\<open>load_devices\<close>. After the first step the file exists, so the \<open>None\<close> branch of
  the read is never taken.
\<close>

definition load_devices :: "store \<Rightarrow> device list \<times> store" where
  "load_devices st =
     (let st1 = (if devices_file st = None then save_devices [] st else st);
          data = (case devices_file st1 of None \<Rightarrow> [] | Some es \<Rightarrow> es);
          ((devices, updated), st2) = ensure_ids data st1;
          st3 = (if updated then save_devices devices st2 else st2)
      in (devices, st3))"

subsection \<open>The routes\<close>

text \<open>
  The JSON body of a POST: each of the keys \<^verbatim>\<open>name\<close> and \<^verbatim>\<open>ip\<close> holds a string or
  is missing or null.
\<close>

record request =
  req_name :: "string option"
  req_ip :: "string option"

datatype body = Device_json device | Error_json string | Ok_json

type_synonym response = "body \<times> nat"

text \<open>\<^verbatim>\<open>data.get(key) or ""\<close>.\<close>

definition get_or_empty :: "string option \<Rightarrow> string" where
  "get_or_empty v = (case v of None \<Rightarrow> [] | Some s \<Rightarrow> s)"

definition add_device :: "request \<Rightarrow> store \<Rightarrow> response \<times> store" where
  "add_device data st =
     (let name = strip (get_or_empty (req_name data));
          ip = strip (get_or_empty (req_ip data))
      in if name = [] \<or> ip = [] then ((Error_json ''name and ip are required'', 400), st)
         else
           let (devices, st1) = load_devices st
           in if list_ex (\<lambda>d. dev_ip d = ip) devices
              then ((Error_json ''device with this IP already exists'', 409), st1)
              else
                let (u, st2) = uuid4 st1;
                    new_dev = \<lparr>dev_id = u, dev_name = name, dev_ip = ip\<rparr>
                in ((Device_json new_dev, 201), save_devices (devices @ [new_dev]) st2))"

definition delete_device :: "string \<Rightarrow> store \<Rightarrow> response \<times> store" where
  "delete_device dev st =
     (let (devices, st1) = load_devices st;
          new_list = filter (\<lambda>d. dev_id d \<noteq> dev) devices
      in if length new_list = length devices then ((Error_json ''not found'', 404), st1)
         else ((Ok_json, 200), save_devices new_list st1))"

subsection \<open>Example data\<close>

text \<open>The two devices \<^verbatim>\<open>app.py\<close> seeds a new \<^verbatim>\<open>devices.json\<close> with.\<close>

definition google :: device where
  "google = \<lparr>dev_id = ''id-g'', dev_name = ''Google DNS'', dev_ip = ''8.8.8.8''\<rparr>"

definition cloudflare :: device where
  "cloudflare = \<lparr>dev_id = ''id-c'', dev_name = ''Cloudflare DNS'', dev_ip = ''1.1.1.1''\<rparr>"

text \<open>Two devices with one ip and names that differ in case only.\<close>

definition printer_upper :: device where
  "printer_upper = \<lparr>dev_id = ''id-1'', dev_name = ''Printer'', dev_ip = ''10.0.0.5''\<rparr>"

definition printer_lower :: device where
  "printer_lower = \<lparr>dev_id = ''id-2'', dev_name = ''printer'', dev_ip = ''10.0.0.5''\<rparr>"

text \<open>Futures that all return \<^verbatim>\<open>True\<close>; futures that return \<^verbatim>\<open>True\<close> for task 1 only.\<close>

definition all_up :: "nat \<Rightarrow> exn + bool" where
  "all_up i = Inr True"

definition second_up :: "nat \<Rightarrow> exn + bool" where
  "second_up i = Inr (i = 1)"

text \<open>A prober outcome per ip: only 1.1.1.1 answers.\<close>

definition cloudflare_alive :: "string \<Rightarrow> exn + bool" where
  "cloudflare_alive ip = Inr (ip = ''1.1.1.1'')"

text \<open>A pool state of a round on one device: the probe is running on the one thread.\<close>

definition pool_busy :: pool where
  "pool_busy = \<lparr>submitted = 1, queue = [], threads = 1, running = [0], finished = []\<rparr>"

text \<open>A random source, and four states of the storage with it.\<close>

definition uuids :: "nat \<Rightarrow> string" where
  "uuids n = ''uuid-'' @ str_nat n"

definition store_seeded :: store where
  "store_seeded =
     \<lparr>devices_file = Some [entry_of google, entry_of cloudflare], written = [],
      uuid_source = uuids, uuid_drawn = 0\<rparr>"

definition store_missing :: store where
  "store_missing = \<lparr>devices_file = None, written = [], uuid_source = uuids, uuid_drawn = 0\<rparr>"

text \<open>A file with one record that has no \<^verbatim>\<open>id\<close>, as \<^verbatim>\<open>load_devices\<close> provides for.\<close>

definition store_no_id :: store where
  "store_no_id =
     \<lparr>devices_file = Some [\<lparr>ent_id = None, ent_name = ''Router'', ent_ip = ''192.168.0.1''\<rparr>],
      written = [], uuid_source = uuids, uuid_drawn = 0\<rparr>"

text \<open>A file with two records under one id.\<close>

definition store_twins :: store where
  "store_twins =
     \<lparr>devices_file = Some [\<lparr>ent_id = Some ''id-t'', ent_name = ''A'', ent_ip = ''10.0.0.1''\<rparr>,
                           \<lparr>ent_id = Some ''id-t'', ent_name = ''B'', ent_ip = ''10.0.0.2''\<rparr>],
      written = [], uuid_source = uuids, uuid_drawn = 0\<rparr>"

text \<open>Requests.\<close>

definition req_no_name :: request where
  "req_no_name = \<lparr>req_name = Some [], req_ip = Some ''8.8.8.8''\<rparr>"

definition req_quad8 :: request where
  "req_quad8 = \<lparr>req_name = Some ''Quad8'', req_ip = Some '' 8.8.8.8 ''\<rparr>"

definition req_gateway :: request where
  "req_gateway = \<lparr>req_name = Some ''Gateway'', req_ip = Some ''192.168.0.1''\<rparr>"

definition req_quad9 :: request where
  "req_quad9 = \<lparr>req_name = Some ''  Quad9 '', req_ip = Some '' 9.9.9.9''\<rparr>"





section \<open>Theorems\<close>

subsection \<open>Auxiliary facts\<close>

lemma map_tasks: "map (\<lambda>i. f (xs ! i)) [0..<length xs] = map f xs"
  by (rule nth_equalityI) simp_all

lemma mset_collected:
  assumes "completion_order devices order"
  shows "mset (collected fut order devices) =
         mset (map (\<lambda>i. task_result (devices ! i) (fut i)) [0..<length devices])"
proof -
  have "mset (collected fut order devices) =
        image_mset (\<lambda>i. task_result (devices ! i) (fut i)) (mset order)"
    by (simp add: collected_def)
  also have "\<dots> = image_mset (\<lambda>i. task_result (devices ! i) (fut i)) (mset [0..<length devices])"
    using assms by (simp only: completion_order_def)
  finally show ?thesis by (simp only: mset_map)
qed

lemma mset_report:
  assumes "completion_order devices order"
  shows "mset (snd (bulk_status fut order devices)) =
         mset (map (\<lambda>i. task_result (devices ! i) (fut i)) [0..<length devices])"
  using mset_collected [OF assms, of fut] by (simp only: bulk_status_def snd_conv mset_sort)

lemma set_collected:
  assumes "completion_order devices order"
  shows "set (collected fut order devices) =
         (\<lambda>i. task_result (devices ! i) (fut i)) ` {..<length devices}"
proof -
  have "set (collected fut order devices) = set_mset (mset (collected fut order devices))"
    by simp
  also have "\<dots> = set (map (\<lambda>i. task_result (devices ! i) (fut i)) [0..<length devices])"
    unfolding mset_collected [OF assms] by (rule set_mset_mset)
  finally show ?thesis by (simp add: lessThan_atLeast0)
qed

lemma filter_eq_replicate: "filter (\<lambda>x. x = a) xs = replicate (count (mset xs) a) a"
  by (induction xs) auto

text \<open>A stable sort by a key that tells the elements apart forgets the order it started from.\<close>

lemma sort_key_inj_perm:
  assumes perm: "mset xs = mset ys" and inj: "inj_on f (set xs)"
  shows "sort_key f xs = sort_key f ys"
proof (rule properties_for_sort_key)
  show "mset (sort_key f ys) = mset xs" using perm by simp
  show "sorted (map f (sort_key f ys))" by simp
  fix k assume "k \<in> set (sort_key f ys)"
  have sets: "set ys = set xs" using perm mset_eq_setD by metis
  with \<open>k \<in> set (sort_key f ys)\<close> have k: "k \<in> set xs" by simp
  have "filter (\<lambda>x. f k = f x) (sort_key f ys) = filter (\<lambda>x. f x = f k) (sort_key f ys)"
    by (rule filter_cong) auto
  also have "\<dots> = filter (\<lambda>x. f x = f k) ys" by (rule sort_key_stable)
  also have "\<dots> = filter (\<lambda>x. x = k) ys"
    using inj k sets by (intro filter_cong) (auto dest: inj_onD)
  also have "\<dots> = filter (\<lambda>x. x = k) xs"
    by (simp only: filter_eq_replicate perm)
  also have "\<dots> = filter (\<lambda>x. f k = f x) xs"
    using inj k by (intro filter_cong) (auto dest: inj_onD)
  finally show "filter (\<lambda>x. f k = f x) (sort_key f ys) = filter (\<lambda>x. f k = f x) xs" .
qed

lemma reachable_threads:
  "reachable devices s \<Longrightarrow> length (running s) \<le> threads s \<and> threads s \<le> max_workers devices"
proof (induction rule: reachable.induct)
  case init
  show ?case by (simp add: pool_init_def)
next
  case (submit_spawn s)
  then show ?case by simp
next
  case (submit_reuse s)
  then show ?case by simp
next
  case (take s i q)
  then show ?case by simp
next
  case (finish s i)
  then show ?case by (auto simp add: length_remove1)
qed

text \<open>A round on no device never leaves the initial state of the pool.\<close>

lemma reachable_empty: "reachable [] s \<Longrightarrow> s = pool_init"
  by (induction rule: reachable.induct) (simp_all add: pool_init_def)

subsection \<open>The coordinator\<close>

text \<open>
  C1: for every device list, and every order in which the probes complete,
  \<^verbatim>\<open>bulk_status\<close> returns one result per device, matched by id: the report has as many
  entries as there are devices, the multiset of its ids is the multiset of the ids of
  the devices, and its entries are, up to order, the \<^const>\<open>task_result\<close> of each task,
  which carries the device's id, name and ip unchanged and one boolean. The list need
  not be non-empty for this.
\<close>

theorem C1_one_result_per_device:
  assumes "completion_order devices order"
  shows "length (snd (bulk_status fut order devices)) = length devices
       \<and> mset (map res_id (snd (bulk_status fut order devices))) = mset (map dev_id devices)
       \<and> mset (map (\<lambda>r. (res_id r, res_name r, res_ip r)) (snd (bulk_status fut order devices)))
           = mset (map (\<lambda>d. (dev_id d, dev_name d, dev_ip d)) devices)
       \<and> mset (snd (bulk_status fut order devices))
           = mset (map (\<lambda>i. task_result (devices ! i) (fut i)) [0..<length devices])"
proof -
  let ?rep = "snd (bulk_status fut order devices)"
  let ?view = "\<lambda>r. (res_id r, res_name r, res_ip r)"
  let ?dview = "\<lambda>d. (dev_id d, dev_name d, dev_ip d)"
  have a: "mset ?rep = mset (map (\<lambda>i. task_result (devices ! i) (fut i)) [0..<length devices])"
    using assms by (rule mset_report)
  have "mset (map ?view ?rep) = image_mset ?view (mset ?rep)"
    by simp
  also have "\<dots> = mset (map (\<lambda>i. ?dview (devices ! i)) [0..<length devices])"
    unfolding a by (simp add: task_result_def image_mset.compositionality comp_def del: mset_upt)
  also have "\<dots> = mset (map ?dview devices)"
    using map_tasks [of ?dview devices] by simp
  finally have b: "mset (map ?view ?rep) = mset (map ?dview devices)" .
  have "mset (map res_id ?rep) = image_mset fst (mset (map ?view ?rep))"
    by (simp add: image_mset.compositionality comp_def)
  also have "\<dots> = mset (map dev_id devices)"
    unfolding b by (simp add: image_mset.compositionality comp_def)
  finally have c: "mset (map res_id ?rep) = mset (map dev_id devices)" .
  have d: "length ?rep = length devices"
    using arg_cong [OF a, of size] by simp
  from a b c d show ?thesis by blast
qed

theorem C1_witness:
  "completion_order [google, cloudflare] [1, 0]
   \<and> length (snd (bulk_status second_up [1, 0] [google, cloudflare])) = 2
   \<and> mset (map res_id (snd (bulk_status second_up [1, 0] [google, cloudflare])))
       = mset [''id-g'', ''id-c'']"
proof -
  have h: "completion_order [google, cloudflare] [1, 0]"
    by (simp add: completion_order_def upt_rec)
  from C1_one_result_per_device [OF h, of second_up] h show ?thesis
    by (simp add: google_def cloudflare_def task_result_def)
qed


text \<open>
  C3, as stated, fails: the sort is stable and its key is (lowercased name, ip), so
  two devices with the same ip and names that differ in case only come out in the
  order in which their probes complete. Here both probes answer \<^verbatim>\<open>True\<close> in both
  runs, and the two completion orders give two different reports.
\<close>

theorem C3_counterexample:
  "completion_order [printer_upper, printer_lower] [0, 1]
   \<and> completion_order [printer_upper, printer_lower] [1, 0]
   \<and> snd (bulk_status all_up [0, 1] [printer_upper, printer_lower])
       = [task_result printer_upper (Inr True), task_result printer_lower (Inr True)]
   \<and> snd (bulk_status all_up [1, 0] [printer_upper, printer_lower])
       = [task_result printer_lower (Inr True), task_result printer_upper (Inr True)]
   \<and> snd (bulk_status all_up [0, 1] [printer_upper, printer_lower])
       \<noteq> snd (bulk_status all_up [1, 0] [printer_upper, printer_lower])"
proof -
  have a: "completion_order [printer_upper, printer_lower] [0, 1]"
    by (simp add: completion_order_def upt_rec)
  have b: "completion_order [printer_upper, printer_lower] [1, 0]"
    by (simp add: completion_order_def upt_rec)
  have c: "snd (bulk_status all_up [0, 1] [printer_upper, printer_lower])
      = [task_result printer_upper (Inr True), task_result printer_lower (Inr True)]"
    by code_simp
  have d: "snd (bulk_status all_up [1, 0] [printer_upper, printer_lower])
      = [task_result printer_lower (Inr True), task_result printer_upper (Inr True)]"
    by code_simp
  have e: "[task_result printer_upper (Inr True), task_result printer_lower (Inr True)]
      \<noteq> [task_result printer_lower (Inr True), task_result printer_upper (Inr True)]"
    by (simp add: task_result_def printer_upper_def printer_lower_def)
  from a b c d e show ?thesis by (simp only: simp_thms)
qed

text \<open>
  C3, amended: when no two different devices of the list agree in both lowercased
  name and ip (so whenever the ips are distinct, which \<^verbatim>\<open>add_device\<close> maintains), two
  runs on the same list in which the prober gives the same outcome \<open>alive ip\<close> for
  each ip return the same report, whatever the two completion orders are.
\<close>

theorem C3_report_deterministic:
  assumes o1: "completion_order devices order1" and o2: "completion_order devices order2"
    and ties: "\<forall>d \<in> set devices. \<forall>e \<in> set devices.
        lower (dev_name d) = lower (dev_name e) \<and> dev_ip d = dev_ip e \<longrightarrow> d = e"
  shows "snd (bulk_status (\<lambda>i. alive (dev_ip (devices ! i))) order1 devices)
       = snd (bulk_status (\<lambda>i. alive (dev_ip (devices ! i))) order2 devices)"
proof -
  let ?fut = "\<lambda>i. alive (dev_ip (devices ! i))"
  have perm: "mset (collected ?fut order1 devices) = mset (collected ?fut order2 devices)"
    by (simp only: mset_collected [OF o1] mset_collected [OF o2])
  have "inj_on report_key (set (collected ?fut order1 devices))"
  proof (rule inj_onI)
    fix x y
    assume x: "x \<in> set (collected ?fut order1 devices)"
      and y: "y \<in> set (collected ?fut order1 devices)"
      and k: "report_key x = report_key y"
    from x obtain i where i: "i < length devices" "x = task_result (devices ! i) (?fut i)"
      unfolding set_collected [OF o1] by auto
    from y obtain j where j: "j < length devices" "y = task_result (devices ! j) (?fut j)"
      unfolding set_collected [OF o1] by auto
    have "lower (dev_name (devices ! i)) = lower (dev_name (devices ! j))
        \<and> dev_ip (devices ! i) = dev_ip (devices ! j)"
      using k i(2) j(2) by (simp add: report_key_def task_result_def)
    moreover have "devices ! i \<in> set devices" "devices ! j \<in> set devices"
      using i(1) j(1) by simp_all
    ultimately have "devices ! i = devices ! j" using ties by blast
    then show "x = y" using i(2) j(2) by simp
  qed
  from sort_key_inj_perm [OF perm this] show ?thesis by (simp add: bulk_status_def)
qed

theorem C3_witness:
  "completion_order [google, cloudflare] [0, 1]
   \<and> completion_order [google, cloudflare] [1, 0]
   \<and> distinct (map dev_ip [google, cloudflare])
   \<and> snd (bulk_status (\<lambda>i. cloudflare_alive (dev_ip ([google, cloudflare] ! i))) [0, 1]
            [google, cloudflare])
     = snd (bulk_status (\<lambda>i. cloudflare_alive (dev_ip ([google, cloudflare] ! i))) [1, 0]
            [google, cloudflare])"
proof -
  have a: "completion_order [google, cloudflare] [0, 1]"
    by (simp add: completion_order_def upt_rec)
  have b: "completion_order [google, cloudflare] [1, 0]"
    by (simp add: completion_order_def upt_rec)
  have c: "distinct (map dev_ip [google, cloudflare])"
    by (simp add: google_def cloudflare_def)
  have d: "\<forall>d \<in> set [google, cloudflare]. \<forall>e \<in> set [google, cloudflare].
      lower (dev_name d) = lower (dev_name e) \<and> dev_ip d = dev_ip e \<longrightarrow> d = e"
    by (simp add: google_def cloudflare_def)
  from C3_report_deterministic [OF a b d, of cloudflare_alive] a b c show ?thesis
    by (simp only: simp_thms)
qed

text \<open>
  C5, as stated, fails: \<^verbatim>\<open>bulk_status\<close> has no early return. On the empty list it
  still enters \<^verbatim>\<open>with ThreadPoolExecutor(max_workers=min(64, max(4, 0)))\<close>, so a pool
  of width 4 is created.
\<close>

theorem C5_counterexample:
  "fst (bulk_status all_up [] []) = [Pool_created 4]"
  by (simp add: bulk_status_def max_workers_def)

text \<open>
  C5, amended: on the empty device list \<^verbatim>\<open>bulk_status\<close> returns the empty report and
  submits no probe; the one thing it does is to create the pool, of width 4, and that
  pool never starts a thread or runs a task.
\<close>

theorem C5_empty_round:
  assumes "completion_order [] order"
  shows "bulk_status fut order [] = ([Pool_created 4], [])
       \<and> (\<forall>s. reachable [] s \<longrightarrow> threads s = 0 \<and> running s = [] \<and> finished s = [])"
proof -
  have "order = []" using assms by (simp add: completion_order_def)
  then have "bulk_status fut order [] = ([Pool_created 4], [])"
    by (simp add: bulk_status_def max_workers_def collected_def)
  moreover have "\<forall>s. reachable [] s \<longrightarrow> threads s = 0 \<and> running s = [] \<and> finished s = []"
    by (auto dest: reachable_empty simp: pool_init_def)
  ultimately show ?thesis by blast
qed

theorem C5_witness:
  "completion_order [] [] \<and> reachable [] pool_init
   \<and> bulk_status all_up [] [] = ([Pool_created 4], [])
   \<and> threads pool_init = 0 \<and> running pool_init = [] \<and> finished pool_init = []"
proof -
  have a: "completion_order [] []" by (simp add: completion_order_def)
  have b: "reachable [] pool_init" by (rule reachable.init)
  from C5_empty_round [OF a, of all_up] a b show ?thesis by blast
qed

text \<open>
  C4: in every state a round of \<^verbatim>\<open>bulk_status\<close> on \<open>devices\<close> can reach, the number of
  probes running is at most the width \<open>W\<close> of the pool, and \<open>W\<close> is the number of
  devices clamped to the range 4 to 64: at most 64 probes run at once on 200 devices,
  and below 4 devices the width is 4.
\<close>

theorem C4_bounded_concurrency:
  assumes "reachable devices s"
  shows "length (running s) \<le> max_workers devices
       \<and> max_workers devices =
           (if length devices < 4 then 4 else if 64 < length devices then 64 else length devices)
       \<and> (length devices = 200 \<longrightarrow> length (running s) \<le> 64)
       \<and> (length devices < 4 \<longrightarrow> max_workers devices = 4)"
proof -
  have a: "length (running s) \<le> max_workers devices"
    using reachable_threads [OF assms] by simp
  have b: "max_workers devices =
      (if length devices < 4 then 4 else if 64 < length devices then 64 else length devices)"
    by (simp add: max_workers_def)
  have c: "max_workers devices \<le> 64" by (simp add: max_workers_def)
  have d: "length devices < 4 \<longrightarrow> max_workers devices = 4" by (simp add: max_workers_def)
  from a c have e: "length (running s) \<le> 64" by (rule order_trans)
  from a b d e show ?thesis by blast
qed

theorem C4_witness:
  "reachable [google] pool_busy \<and> length [google] < 4
   \<and> length (running pool_busy) \<le> max_workers [google] \<and> max_workers [google] = 4
   \<and> reachable (replicate 200 google) pool_init \<and> length (replicate 200 google) = 200
   \<and> length (running pool_init) \<le> 64 \<and> max_workers (replicate 200 google) = 64"
proof -
  have s1: "reachable [google]
      (pool_init\<lparr>submitted := Suc (submitted pool_init),
                 queue := queue pool_init @ [submitted pool_init],
                 threads := Suc (threads pool_init)\<rparr>)"
    by (rule reachable.submit_spawn [OF reachable.init])
       (simp_all add: pool_init_def max_workers_def)
  have s2: "reachable [google]
      (pool_init\<lparr>submitted := Suc (submitted pool_init),
                 queue := queue pool_init @ [submitted pool_init],
                 threads := Suc (threads pool_init)\<rparr>
         \<lparr>queue := [], running := 0 # running
           (pool_init\<lparr>submitted := Suc (submitted pool_init),
                 queue := queue pool_init @ [submitted pool_init],
                 threads := Suc (threads pool_init)\<rparr>)\<rparr>)"
    by (rule reachable.take [OF s1]) (simp_all add: pool_init_def)
  have a: "reachable [google] pool_busy"
    using s2 by (simp add: pool_init_def pool_busy_def)
  have b: "reachable (replicate 200 google) pool_init" by (rule reachable.init)
  from C4_bounded_concurrency [OF a] C4_bounded_concurrency [OF b] a b show ?thesis
    by simp
qed

subsection \<open>Storage and routes\<close>

lemma ensure_ids_complete:
  "\<forall>e \<in> set data. ent_id e \<noteq> None \<Longrightarrow>
   ensure_ids data st =
     ((map (\<lambda>e. \<lparr>dev_id = the (ent_id e), dev_name = ent_name e, dev_ip = ent_ip e\<rparr>) data,
       False), st)"
  by (induction data) auto

lemma ensure_ids_store:
  "ensure_ids data st = ((devices, updated), st') \<Longrightarrow>
   devices_file st' = devices_file st \<and> written st' = written st
   \<and> uuid_source st' = uuid_source st"
  by (induction data arbitrary: st devices updated st')
     (auto simp: uuid4_def split: option.splits prod.splits)

lemma ensure_ids_fields:
  "ensure_ids data st = ((devices, updated), st') \<Longrightarrow>
   map dev_name devices = map ent_name data \<and> map dev_ip devices = map ent_ip data"
  by (induction data arbitrary: st devices updated st')
     (auto simp: uuid4_def split: option.splits prod.splits)

lemma entry_of_complete:
  "ent_id e \<noteq> None \<Longrightarrow>
   entry_of \<lparr>dev_id = the (ent_id e), dev_name = ent_name e, dev_ip = ent_ip e\<rparr> = e"
  by (cases e) (auto simp: entry_of_def)

lemma load_devices_complete:
  assumes "devices_file st = Some es" and "\<forall>e \<in> set es. ent_id e \<noteq> None"
  shows "load_devices st =
    (map (\<lambda>e. \<lparr>dev_id = the (ent_id e), dev_name = ent_name e, dev_ip = ent_ip e\<rparr>) es, st)"
  using assms by (simp add: load_devices_def ensure_ids_complete)

text \<open>
  What \<^verbatim>\<open>load_devices\<close> keeps of an existing file in any case: the names and the ips,
  in their order, in what it returns and in the file it leaves.
\<close>

lemma load_devices_fields:
  assumes fl: "devices_file st = Some es"
  shows "map dev_name (fst (load_devices st)) = map ent_name es
       \<and> map dev_ip (fst (load_devices st)) = map ent_ip es
       \<and> (\<exists>es'. devices_file (snd (load_devices st)) = Some es'
             \<and> map ent_name es' = map ent_name es \<and> map ent_ip es' = map ent_ip es)"
proof -
  obtain devices updated st2 where e: "ensure_ids es st = ((devices, updated), st2)"
    by (metis surj_pair)
  note f = ensure_ids_fields [OF e] and g = ensure_ids_store [OF e]
  have l: "load_devices st = (devices, if updated then save_devices devices st2 else st2)"
    using fl e by (simp add: load_devices_def)
  have m: "map (ent_name \<circ> entry_of) devices = map dev_name devices"
          "map (ent_ip \<circ> entry_of) devices = map dev_ip devices"
    by (simp_all add: entry_of_def comp_def)
  show ?thesis
  proof (cases updated)
    case True
    then show ?thesis using l f m by (simp add: save_devices_def)
  next
    case False
    then show ?thesis using l f g fl by simp
  qed
qed

lemma length_filter_less_iff: "length (filter P xs) \<noteq> length xs \<longleftrightarrow> (\<exists>x \<in> set xs. \<not> P x)"
  by (metis filter_id_conv length_filter_less nat_less_le)

lemma filter_distinct_one:
  assumes "distinct (map f xs)" and "x \<in> set xs"
  shows "mset xs = add_mset x (mset (filter (\<lambda>y. f y \<noteq> f x) xs))"
  using assms
proof (induction xs)
  case Nil
  then show ?case by simp
next
  case (Cons a xs)
  show ?case
  proof (cases "a = x")
    case True
    then have "filter (\<lambda>y. f y \<noteq> f x) xs = xs"
      using Cons.prems(1) by (auto simp: filter_id_conv image_iff)
    with True show ?thesis by simp
  next
    case False
    then have "x \<in> set xs" using Cons.prems(2) by simp
    moreover have "f a \<noteq> f x" using Cons.prems(1) \<open>x \<in> set xs\<close> by auto
    ultimately show ?thesis using Cons by simp
  qed
qed

text \<open>
  C7, as stated, fails in two ways. A request with an empty name is rejected with 400
  before the file is read, although its ip is the ip of a stored device. And when a
  stored record has no id, \<^verbatim>\<open>load_devices\<close> adds one and writes the file before the
  duplicate is found: the answer is 409, but there was a write and the stored
  collection has changed.
\<close>

theorem C7_counterexample:
  "devices_file store_seeded = Some [entry_of google, entry_of cloudflare]
   \<and> req_ip req_no_name = Some (ent_ip (entry_of google))
   \<and> fst (add_device req_no_name store_seeded) = (Error_json ''name and ip are required'', 400)
   \<and> devices_file store_no_id =
       Some [\<lparr>ent_id = None, ent_name = ''Router'', ent_ip = ''192.168.0.1''\<rparr>]
   \<and> req_ip req_gateway = Some ''192.168.0.1''
   \<and> fst (add_device req_gateway store_no_id) =
       (Error_json ''device with this IP already exists'', 409)
   \<and> written store_no_id = []
   \<and> written (snd (add_device req_gateway store_no_id)) =
       [[\<lparr>ent_id = Some ''uuid-0'', ent_name = ''Router'', ent_ip = ''192.168.0.1''\<rparr>]]
   \<and> devices_file (snd (add_device req_gateway store_no_id)) =
       Some [\<lparr>ent_id = Some ''uuid-0'', ent_name = ''Router'', ent_ip = ''192.168.0.1''\<rparr>]"
proof -
  have a: "devices_file store_seeded = Some [entry_of google, entry_of cloudflare]"
    by (simp add: store_seeded_def)
  have b: "req_ip req_no_name = Some (ent_ip (entry_of google))"
    by (simp add: req_no_name_def entry_of_def google_def)
  have c: "fst (add_device req_no_name store_seeded) =
      (Error_json ''name and ip are required'', 400)"
    by code_simp
  have d: "devices_file store_no_id =
      Some [\<lparr>ent_id = None, ent_name = ''Router'', ent_ip = ''192.168.0.1''\<rparr>]"
    by (simp add: store_no_id_def)
  have e: "req_ip req_gateway = Some ''192.168.0.1''"
    by (simp add: req_gateway_def)
  have f: "fst (add_device req_gateway store_no_id) =
      (Error_json ''device with this IP already exists'', 409)"
    by code_simp
  have g: "written store_no_id = []"
    by (simp add: store_no_id_def)
  have h: "written (snd (add_device req_gateway store_no_id)) =
      [[\<lparr>ent_id = Some ''uuid-0'', ent_name = ''Router'', ent_ip = ''192.168.0.1''\<rparr>]]"
    by code_simp
  have i: "devices_file (snd (add_device req_gateway store_no_id)) =
      Some [\<lparr>ent_id = Some ''uuid-0'', ent_name = ''Router'', ent_ip = ''192.168.0.1''\<rparr>]"
    by code_simp
  from a b c d e f g h i show ?thesis by (simp only: simp_thms)
qed

text \<open>
  C7, amended: when the name and the ip of the request are not empty after stripping
  and a stored device has the stripped ip (compared as strings, case-sensitive),
  \<^verbatim>\<open>add_device\<close> answers 409 and adds nothing: the storage is left as \<^verbatim>\<open>load_devices\<close>
  leaves it, with the names and ips of the stored records unchanged and in order.
  When every stored record has an id, the storage is unchanged altogether, and nothing
  is written.
\<close>

theorem C7_duplicate_ip_rejected:
  assumes fl: "devices_file st = Some es"
    and name: "strip (get_or_empty (req_name data)) \<noteq> []"
    and ip: "strip (get_or_empty (req_ip data)) \<noteq> []"
    and dup: "\<exists>e \<in> set es. ent_ip e = strip (get_or_empty (req_ip data))"
  shows "fst (add_device data st) = (Error_json ''device with this IP already exists'', 409)
       \<and> snd (add_device data st) = snd (load_devices st)
       \<and> (\<exists>es'. devices_file (snd (add_device data st)) = Some es'
             \<and> map ent_name es' = map ent_name es \<and> map ent_ip es' = map ent_ip es)
       \<and> ((\<forall>e \<in> set es. ent_id e \<noteq> None) \<longrightarrow> snd (add_device data st) = st)"
proof -
  note lf = load_devices_fields [OF fl]
  obtain devices st1 where l: "load_devices st = (devices, st1)"
    by (metis surj_pair)
  have "strip (get_or_empty (req_ip data)) \<in> set (map ent_ip es)"
    using dup by (auto simp: image_iff intro: sym)
  then have "strip (get_or_empty (req_ip data)) \<in> set (map dev_ip devices)"
    using lf l by simp
  then have ex: "list_ex (\<lambda>d. dev_ip d = strip (get_or_empty (req_ip data))) devices"
    by (auto simp: list_ex_iff)
  have r: "add_device data st =
      ((Error_json ''device with this IP already exists'', 409), st1)"
    using name ip l ex by (simp add: add_device_def Let_def)
  have a: "fst (add_device data st) = (Error_json ''device with this IP already exists'', 409)"
    using r by simp
  have b: "snd (add_device data st) = snd (load_devices st)"
    using r l by simp
  have c: "\<exists>es'. devices_file (snd (add_device data st)) = Some es'
      \<and> map ent_name es' = map ent_name es \<and> map ent_ip es' = map ent_ip es"
    using lf b by simp
  have d: "(\<forall>e \<in> set es. ent_id e \<noteq> None) \<longrightarrow> snd (add_device data st) = st"
    using b load_devices_complete [OF fl] by simp
  from a b c d show ?thesis by blast
qed

theorem C7_witness:
  "devices_file store_seeded = Some [entry_of google, entry_of cloudflare]
   \<and> strip (get_or_empty (req_name req_quad8)) = ''Quad8''
   \<and> strip (get_or_empty (req_ip req_quad8)) = ent_ip (entry_of google)
   \<and> fst (add_device req_quad8 store_seeded) =
       (Error_json ''device with this IP already exists'', 409)
   \<and> snd (add_device req_quad8 store_seeded) = store_seeded"
proof -
  have a: "devices_file store_seeded = Some [entry_of google, entry_of cloudflare]"
    by (simp add: store_seeded_def)
  have b: "strip (get_or_empty (req_name req_quad8)) = ''Quad8''"
    by code_simp
  have c: "strip (get_or_empty (req_ip req_quad8)) = ent_ip (entry_of google)"
    by code_simp
  have n: "strip (get_or_empty (req_name req_quad8)) \<noteq> []"
    using b by simp
  have i: "strip (get_or_empty (req_ip req_quad8)) \<noteq> []"
    using c by (simp add: entry_of_def google_def)
  have d: "\<exists>e \<in> set [entry_of google, entry_of cloudflare].
      ent_ip e = strip (get_or_empty (req_ip req_quad8))"
    using c by simp
  have e: "\<forall>e \<in> set [entry_of google, entry_of cloudflare]. ent_id e \<noteq> None"
    by (simp add: entry_of_def)
  from C7_duplicate_ip_rejected [OF a n i d] e a b c show ?thesis by blast
qed

text \<open>
  C8, as stated, fails in three ways. On an unknown id \<^verbatim>\<open>delete_device\<close> answers 404,
  but \<^verbatim>\<open>load_devices\<close> has written before that when \<^verbatim>\<open>devices.json\<close> did not exist
  (it writes the empty list) or when a stored record had no id (it writes the records
  with the new ids). On a known id the filter removes every record with that id: both
  records of a file that holds two under one id.
\<close>

theorem C8_counterexample:
  "devices_file store_missing = None \<and> written store_missing = []
   \<and> fst (delete_device ''nope'' store_missing) = (Error_json ''not found'', 404)
   \<and> written (snd (delete_device ''nope'' store_missing)) = [[]]
   \<and> written store_no_id = []
   \<and> fst (delete_device ''nope'' store_no_id) = (Error_json ''not found'', 404)
   \<and> written (snd (delete_device ''nope'' store_no_id)) =
       [[\<lparr>ent_id = Some ''uuid-0'', ent_name = ''Router'', ent_ip = ''192.168.0.1''\<rparr>]]
   \<and> devices_file store_twins =
       Some [\<lparr>ent_id = Some ''id-t'', ent_name = ''A'', ent_ip = ''10.0.0.1''\<rparr>,
             \<lparr>ent_id = Some ''id-t'', ent_name = ''B'', ent_ip = ''10.0.0.2''\<rparr>]
   \<and> fst (delete_device ''id-t'' store_twins) = (Ok_json, 200)
   \<and> devices_file (snd (delete_device ''id-t'' store_twins)) = Some []"
proof -
  have a: "devices_file store_missing = None \<and> written store_missing = []"
    by (simp add: store_missing_def)
  have b: "fst (delete_device ''nope'' store_missing) = (Error_json ''not found'', 404)"
    by code_simp
  have c: "written (snd (delete_device ''nope'' store_missing)) = [[]]"
    by code_simp
  have d: "written store_no_id = []"
    by (simp add: store_no_id_def)
  have e: "fst (delete_device ''nope'' store_no_id) = (Error_json ''not found'', 404)"
    by code_simp
  have f: "written (snd (delete_device ''nope'' store_no_id)) =
      [[\<lparr>ent_id = Some ''uuid-0'', ent_name = ''Router'', ent_ip = ''192.168.0.1''\<rparr>]]"
    by code_simp
  have g: "devices_file store_twins =
      Some [\<lparr>ent_id = Some ''id-t'', ent_name = ''A'', ent_ip = ''10.0.0.1''\<rparr>,
            \<lparr>ent_id = Some ''id-t'', ent_name = ''B'', ent_ip = ''10.0.0.2''\<rparr>]"
    by (simp add: store_twins_def)
  have h: "fst (delete_device ''id-t'' store_twins) = (Ok_json, 200)"
    by code_simp
  have i: "devices_file (snd (delete_device ''id-t'' store_twins)) = Some []"
    by code_simp
  from a b c d e f g h i show ?thesis by (simp only: simp_thms)
qed

text \<open>
  C8, amended: when \<^verbatim>\<open>devices.json\<close> exists and every stored record has an id,
  \<^verbatim>\<open>delete_device\<close> on an id that no stored record has answers 404 and leaves the
  storage unchanged, with no write; on an id that a stored record has it answers 200
  and writes, once, the stored list without the records of that id, the others
  unchanged and in order. When the stored ids are distinct, this removes exactly one
  record.
\<close>

theorem C8_delete:
  assumes fl: "devices_file st = Some es"
    and ids: "\<forall>e \<in> set es. ent_id e \<noteq> None"
  shows "(Some dev \<notin> ent_id ` set es \<longrightarrow>
            delete_device dev st = ((Error_json ''not found'', 404), st))
       \<and> (Some dev \<in> ent_id ` set es \<longrightarrow>
            delete_device dev st =
              ((Ok_json, 200),
               st\<lparr>devices_file := Some (filter (\<lambda>e. ent_id e \<noteq> Some dev) es),
                  written := filter (\<lambda>e. ent_id e \<noteq> Some dev) es # written st\<rparr>))
       \<and> (distinct (map ent_id es) \<longrightarrow>
            (\<forall>e \<in> set es. ent_id e = Some dev \<longrightarrow>
               mset es = add_mset e (mset (filter (\<lambda>x. ent_id x \<noteq> Some dev) es))))"
proof -
  let ?f = "\<lambda>e. \<lparr>dev_id = the (ent_id e), dev_name = ent_name e, dev_ip = ent_ip e\<rparr>"
  let ?devs = "map ?f es"
  let ?keep = "filter (\<lambda>e. ent_id e \<noteq> Some dev) es"
  have load: "load_devices st = (?devs, st)"
    using fl ids by (rule load_devices_complete)
  have flt: "filter (\<lambda>d. dev_id d \<noteq> dev) ?devs = map ?f ?keep"
    using ids by (induction es) auto
  have rt: "map entry_of (map ?f ?keep) = ?keep"
    using ids by (induction es) (auto simp: entry_of_complete)
  have a: "Some dev \<notin> ent_id ` set es \<longrightarrow>
      delete_device dev st = ((Error_json ''not found'', 404), st)"
  proof
    assume "Some dev \<notin> ent_id ` set es"
    then have "?keep = es" by (auto simp: filter_id_conv image_iff)
    then show "delete_device dev st = ((Error_json ''not found'', 404), st)"
      using load flt by (simp add: delete_device_def Let_def)
  qed
  have b: "Some dev \<in> ent_id ` set es \<longrightarrow>
      delete_device dev st =
        ((Ok_json, 200), st\<lparr>devices_file := Some ?keep, written := ?keep # written st\<rparr>)"
  proof
    assume "Some dev \<in> ent_id ` set es"
    then have "\<exists>e \<in> set es. \<not> ent_id e \<noteq> Some dev" by (auto simp: image_iff)
    then have "length ?keep \<noteq> length es"
      by (simp only: length_filter_less_iff)
    then have "length (filter (\<lambda>d. dev_id d \<noteq> dev) ?devs) \<noteq> length ?devs"
      by (simp add: flt)
    then show "delete_device dev st =
        ((Ok_json, 200), st\<lparr>devices_file := Some ?keep, written := ?keep # written st\<rparr>)"
      using load flt rt by (simp add: delete_device_def Let_def save_devices_def del: map_map)
  qed
  have c: "distinct (map ent_id es) \<longrightarrow>
      (\<forall>e \<in> set es. ent_id e = Some dev \<longrightarrow> mset es = add_mset e (mset ?keep))"
  proof (intro impI ballI)
    fix e
    assume d: "distinct (map ent_id es)" and e: "e \<in> set es" and i: "ent_id e = Some dev"
    from filter_distinct_one [OF d e] i show "mset es = add_mset e (mset ?keep)" by simp
  qed
  from a b c show ?thesis by blast
qed

theorem C8_witness:
  "devices_file store_seeded = Some [entry_of google, entry_of cloudflare]
   \<and> distinct (map ent_id [entry_of google, entry_of cloudflare])
   \<and> delete_device ''nope'' store_seeded = ((Error_json ''not found'', 404), store_seeded)
   \<and> delete_device ''id-g'' store_seeded =
       ((Ok_json, 200),
        store_seeded\<lparr>devices_file := Some [entry_of cloudflare],
                     written := [[entry_of cloudflare]]\<rparr>)
   \<and> mset [entry_of google, entry_of cloudflare] = add_mset (entry_of google) (mset [entry_of cloudflare])"
proof -
  have a: "devices_file store_seeded = Some [entry_of google, entry_of cloudflare]"
    by (simp add: store_seeded_def)
  have b: "\<forall>e \<in> set [entry_of google, entry_of cloudflare]. ent_id e \<noteq> None"
    by (simp add: entry_of_def)
  have c: "distinct (map ent_id [entry_of google, entry_of cloudflare])"
    by (simp add: entry_of_def google_def cloudflare_def)
  have d: "Some ''nope'' \<notin> ent_id ` set [entry_of google, entry_of cloudflare]"
    by (simp add: entry_of_def google_def cloudflare_def)
  have e: "Some ''id-g'' \<in> ent_id ` set [entry_of google, entry_of cloudflare]"
    by (simp add: entry_of_def google_def cloudflare_def)
  have f: "filter (\<lambda>e. ent_id e \<noteq> Some ''id-g'') [entry_of google, entry_of cloudflare]
      = [entry_of cloudflare]"
    by (simp add: entry_of_def google_def cloudflare_def)
  have g: "written store_seeded = []"
    by (simp add: store_seeded_def)
  note n = C8_delete [OF a b, of "''nope''"] and k = C8_delete [OF a b, of "''id-g''"]
  from n d have h: "delete_device ''nope'' store_seeded =
      ((Error_json ''not found'', 404), store_seeded)"
    by blast
  from k e have "delete_device ''id-g'' store_seeded =
      ((Ok_json, 200),
       store_seeded\<lparr>devices_file :=
           Some (filter (\<lambda>e. ent_id e \<noteq> Some ''id-g'') [entry_of google, entry_of cloudflare]),
         written := filter (\<lambda>e. ent_id e \<noteq> Some ''id-g'') [entry_of google, entry_of cloudflare]
           # written store_seeded\<rparr>)"
    by blast
  then have i: "delete_device ''id-g'' store_seeded =
      ((Ok_json, 200),
       store_seeded\<lparr>devices_file := Some [entry_of cloudflare],
                    written := [[entry_of cloudflare]]\<rparr>)"
    by (simp only: f g)
  have j: "mset [entry_of google, entry_of cloudflare] =
      add_mset (entry_of google) (mset [entry_of cloudflare])"
    by simp
  from a c h i j show ?thesis by (simp only: simp_thms)
qed

text \<open>
  What \<^const>\<open>strip\<close> returns: the string without a first part and a last part that
  are whitespace throughout, and with no whitespace at either end of what is left.
\<close>

lemma strip_spec:
  "\<exists>a b. s = a @ strip s @ b \<and> (\<forall>c \<in> set a. isspace c) \<and> (\<forall>c \<in> set b. isspace c)
     \<and> (strip s \<noteq> [] \<longrightarrow> \<not> isspace (hd (strip s)) \<and> \<not> isspace (last (strip s)))"
proof -
  let ?l = "dropWhile isspace s"
  let ?a = "takeWhile isspace s"
  let ?b = "rev (takeWhile isspace (rev ?l))"
  have s: "s = ?a @ ?l" by simp
  have l: "?l = strip s @ ?b"
  proof -
    have "rev (dropWhile isspace (rev ?l)) @ rev (takeWhile isspace (rev ?l))
        = rev (takeWhile isspace (rev ?l) @ dropWhile isspace (rev ?l))"
      by (simp only: rev_append)
    also have "\<dots> = rev (rev ?l)" by (simp only: takeWhile_dropWhile_id)
    finally show ?thesis by (simp add: strip_def rstrip_def lstrip_def)
  qed
  have a: "\<forall>c \<in> set ?a. isspace c" by (auto dest: set_takeWhileD)
  have b: "\<forall>c \<in> set ?b. isspace c" by (auto dest: set_takeWhileD)
  have e: "strip s \<noteq> [] \<longrightarrow> \<not> isspace (hd (strip s)) \<and> \<not> isspace (last (strip s))"
  proof
    assume ne: "strip s \<noteq> []"
    then have d: "dropWhile isspace (rev ?l) \<noteq> []"
      by (simp add: strip_def rstrip_def lstrip_def)
    from hd_dropWhile [OF d] have "\<not> isspace (last (strip s))"
      using ne by (simp add: strip_def rstrip_def lstrip_def last_rev)
    moreover have "\<not> isspace (hd (strip s))"
    proof -
      have "?l \<noteq> []"
      proof
        assume "?l = []"
        with l have "strip s @ ?b = []" by (simp only:)
        with ne show False by simp
      qed
      from hd_dropWhile [OF this] have "\<not> isspace (hd ?l)" .
      moreover have "hd ?l = hd (strip s)" using l ne by (metis hd_append2)
      ultimately show ?thesis by simp
    qed
    ultimately show "\<not> isspace (hd (strip s)) \<and> \<not> isspace (last (strip s))" by simp
  qed
  from s l have "s = ?a @ strip s @ ?b" by simp
  with a b e show ?thesis by blast
qed

text \<open>
  C9: when \<^verbatim>\<open>add_device\<close> succeeds (201), the device it returns and the record it
  appends to the stored list have as name and ip the request's values stripped: what
  is left of each after removing the whitespace before and after, not empty, and with
  no whitespace at either end.
\<close>

theorem C9_stored_stripped:
  assumes ok: "snd (fst (add_device data st)) = 201"
  shows "(\<exists>u. fst (add_device data st) =
             (Device_json \<lparr>dev_id = u, dev_name = strip (get_or_empty (req_name data)),
                           dev_ip = strip (get_or_empty (req_ip data))\<rparr>, 201)
           \<and> devices_file (snd (add_device data st)) =
             Some (map entry_of (fst (load_devices st)) @
                   [\<lparr>ent_id = Some u, ent_name = strip (get_or_empty (req_name data)),
                     ent_ip = strip (get_or_empty (req_ip data))\<rparr>]))
       \<and> (\<exists>a b. get_or_empty (req_name data) = a @ strip (get_or_empty (req_name data)) @ b
             \<and> list_all isspace a \<and> list_all isspace b)
       \<and> (\<exists>a b. get_or_empty (req_ip data) = a @ strip (get_or_empty (req_ip data)) @ b
             \<and> list_all isspace a \<and> list_all isspace b)
       \<and> strip (get_or_empty (req_name data)) \<noteq> []
       \<and> \<not> isspace (hd (strip (get_or_empty (req_name data))))
       \<and> \<not> isspace (last (strip (get_or_empty (req_name data))))
       \<and> strip (get_or_empty (req_ip data)) \<noteq> []
       \<and> \<not> isspace (hd (strip (get_or_empty (req_ip data))))
       \<and> \<not> isspace (last (strip (get_or_empty (req_ip data))))"
proof -
  let ?name = "strip (get_or_empty (req_name data))"
  let ?ip = "strip (get_or_empty (req_ip data))"
  have ne: "?name \<noteq> [] \<and> ?ip \<noteq> []"
    using ok by (auto simp: add_device_def Let_def split: if_splits)
  have a: "\<exists>u. fst (add_device data st) =
        (Device_json \<lparr>dev_id = u, dev_name = ?name, dev_ip = ?ip\<rparr>, 201)
      \<and> devices_file (snd (add_device data st)) =
        Some (map entry_of (fst (load_devices st)) @
              [\<lparr>ent_id = Some u, ent_name = ?name, ent_ip = ?ip\<rparr>])"
    using ok
    by (auto simp: add_device_def Let_def save_devices_def entry_of_def uuid4_def
        split: if_splits prod.splits)
  from strip_spec [of "get_or_empty (req_name data)"] ne
  have n: "(\<exists>a b. get_or_empty (req_name data) = a @ ?name @ b
        \<and> list_all isspace a \<and> list_all isspace b)
      \<and> \<not> isspace (hd ?name) \<and> \<not> isspace (last ?name)"
    by (simp only: list_all_iff) blast
  from strip_spec [of "get_or_empty (req_ip data)"] ne
  have i: "(\<exists>a b. get_or_empty (req_ip data) = a @ ?ip @ b
        \<and> list_all isspace a \<and> list_all isspace b)
      \<and> \<not> isspace (hd ?ip) \<and> \<not> isspace (last ?ip)"
    by (simp only: list_all_iff) blast
  from a n i ne show ?thesis by blast
qed

theorem C9_witness:
  "snd (fst (add_device req_quad9 store_seeded)) = 201
   \<and> req_name req_quad9 = Some ''  Quad9 '' \<and> req_ip req_quad9 = Some '' 9.9.9.9''
   \<and> fst (add_device req_quad9 store_seeded) =
       (Device_json \<lparr>dev_id = ''uuid-0'', dev_name = ''Quad9'', dev_ip = ''9.9.9.9''\<rparr>, 201)
   \<and> devices_file (snd (add_device req_quad9 store_seeded)) =
       Some [entry_of google, entry_of cloudflare,
             \<lparr>ent_id = Some ''uuid-0'', ent_name = ''Quad9'', ent_ip = ''9.9.9.9''\<rparr>]"
proof -
  have h: "snd (fst (add_device req_quad9 store_seeded)) = 201"
    by code_simp
  have a: "req_name req_quad9 = Some ''  Quad9 '' \<and> req_ip req_quad9 = Some '' 9.9.9.9''"
    by (simp add: req_quad9_def)
  have b: "fst (add_device req_quad9 store_seeded) =
      (Device_json \<lparr>dev_id = ''uuid-0'', dev_name = ''Quad9'', dev_ip = ''9.9.9.9''\<rparr>, 201)"
    by code_simp
  have c: "devices_file (snd (add_device req_quad9 store_seeded)) =
      Some [entry_of google, entry_of cloudflare,
            \<lparr>ent_id = Some ''uuid-0'', ent_name = ''Quad9'', ent_ip = ''9.9.9.9''\<rparr>]"
    by code_simp
  from C9_stored_stripped [OF h] h a b c show ?thesis by (simp only: simp_thms)
qed

subsection \<open>The prober\<close>










end
